theory Spec2Isabelle
  imports Main "HOL-Library.Char_ord" "HOL-Library.List_Lexorder"
begin

section \<open>The delta sync client (create-client.js)\<close>

text \<open>
  A shallow embedding of \<^verbatim>\<open>examples/simple-example/fault-tolerant/delta/create-client.js\<close>:
  the outbound message builder \<^verbatim>\<open>getMessages\<close>, the inbound message applier
  \<^verbatim>\<open>handleMessages\<close> and the clock closures of \<^verbatim>\<open>createClient\<close>.

  Modelling conventions.
  \<^item> The collaborators (CRDT, persistence, clock store) are parameters: records of
    functions. A promise returned by a collaborator is the value it settles to,
    \<open>Inl e\<close> for a rejection with reason \<open>e\<close> and \<open>Inr v\<close> for a fulfilment.
  \<^item> The types \<open>'delta\<close>, \<open>'data\<close>, \<open>'cursor\<close>, \<open>'stamp\<close> and \<open>'value\<close> are the
    collaborators' own and stay opaque. A JavaScript \<^verbatim>\<open>null\<close> or \<^verbatim>\<open>undefined\<close> in
    their place is \<open>None\<close>. A truthiness test on a data value or a stamp
    (\<^verbatim>\<open>cache[id]\<close>, \<^verbatim>\<open>!maxStamp\<close>) is the test for \<open>Some\<close>: data values are CRDT
    documents (objects), and stamps are packed clocks (non-empty strings, ordered by
    JavaScript's string comparison, a linear order). The server cursor is a watermark
    whose values may be falsy (the number 0, the empty string): the truthiness of its
    values is a parameter of \<^verbatim>\<open>getMessages\<close>.
  \<^item> An object used as a dictionary is a map over its own properties; node and
    collection ids are strings that do not name members of \<^verbatim>\<open>Object.prototype\<close>.
  \<^item> Calls to collaborators and callbacks that have an effect are recorded, in program
    order, as a list of events. Listeners and the two callbacks of \<^verbatim>\<open>handleMessages\<close>
    are opaque: they return normally and do not touch the collection state.
\<close>

type_synonym node_id = string
type_synonym col_id = string

subsection \<open>Messages and collaborators\<close>

text \<open>The objects \<^verbatim>\<open>{node, delta}\<close> of a message and \<^verbatim>\<open>{node, delta, stamp}\<close> of
  \<^verbatim>\<open>deltasWithStamps\<close> and of the pending-delta store (\<^verbatim>\<open>PendingDelta\<close>).\<close>

record 'delta node_delta =
  node :: node_id
  delta :: 'delta

record ('delta, 'stamp) stamped_delta = "'delta node_delta" +
  stamp :: 'stamp

text \<open>Modelled from the spec: the types \<^verbatim>\<open>ClientMessage\<close> and \<^verbatim>\<open>ServerMessage\<close> of
  \<^verbatim>\<open>../server\<close>. The client message that \<^verbatim>\<open>getMessages\<close> builds is
  \<^verbatim>\<open>{type: 'sync', collection, serverCursor, deltas}\<close>; the server cursor is "an opaque
  per-collection watermark", which may be absent.\<close>

datatype ('delta, 'cursor) client_message =
  ClientSync (cm_collection: col_id) (cm_serverCursor: "'cursor option")
    (cm_deltas: "'delta node_delta list")

text \<open>A server message is \<^verbatim>\<open>{type: 'sync', collection, serverCursor, deltas}\<close> or
  \<^verbatim>\<open>{type: 'ack', collection, deltaStamp}\<close>.\<close>

datatype ('delta, 'stamp, 'cursor) server_message =
  Sync col_id "'cursor option" "'delta node_delta list"
| Ack col_id 'stamp

text \<open>Modelled from the spec: the type \<^verbatim>\<open>DeltaPersistence\<close> of \<^verbatim>\<open>./types\<close>, the
  interface \<^verbatim>\<open>collections\<close>, \<^verbatim>\<open>deltas(collection)\<close>, \<^verbatim>\<open>getServerCursor(collection)\<close>,
  \<^verbatim>\<open>applyDeltas(collection, deltasWithStamps, newCursor, mergeFn)\<close> and
  \<^verbatim>\<open>deleteDeltas(collection, uptoStamp)\<close>. Each function gives what the returned
  promise settles to; the effect of \<^verbatim>\<open>applyDeltas\<close> and \<^verbatim>\<open>deleteDeltas\<close> on the store is
  the collaborator's and appears in the model as the event of the call.\<close>

record ('delta, 'data, 'stamp, 'cursor, 'e) persistence =
  collections :: "col_id list"
  deltas :: "col_id \<Rightarrow> 'e + ('delta, 'stamp) stamped_delta list"
  getServerCursor :: "col_id \<Rightarrow> 'e + 'cursor option"
  applyDeltas :: "col_id \<Rightarrow> ('delta, 'stamp) stamped_delta list \<Rightarrow> 'cursor option
    \<Rightarrow> ('data \<Rightarrow> 'delta \<Rightarrow> 'data) \<Rightarrow> 'e + (node_id \<rightharpoonup> 'data)"
  deleteDeltas :: "col_id \<Rightarrow> 'stamp \<Rightarrow> 'e + unit"

subsection \<open>getMessages\<close>

text \<open>\<^verbatim>\<open>Promise.all\<close>: the array of results when every promise is fulfilled, a rejection
  otherwise. Which rejection wins is a matter of timing in JavaScript; the model reports
  the first one in array order.\<close>

fun promise_all :: "('e + 'a) list \<Rightarrow> 'e + 'a list" where
  "promise_all [] = Inr []"
| "promise_all (Inl e # ps) = Inl e"
| "promise_all (Inr v # ps) = (case promise_all ps of Inl e \<Rightarrow> Inl e | Inr vs \<Rightarrow> Inr (v # vs))"

text \<open>The destructuring \<^verbatim>\<open>({ node, delta }) => ({ node, delta })\<close>.\<close>

definition node_and_delta :: "('delta, 'stamp) stamped_delta \<Rightarrow> 'delta node_delta" where
  "node_and_delta d = \<lparr>node = node d, delta = delta d\<rparr>"

text \<open>The truthiness of \<^verbatim>\<open>serverCursor\<close>, which \<^verbatim>\<open>!serverCursor\<close> negates: \<^verbatim>\<open>null\<close> and
  \<^verbatim>\<open>undefined\<close> are falsy, and \<open>truthy\<close> says which values of the cursor's type are
  truthy (of a number, all but 0; of a string, all but the empty one). The type of the
  cursor is not declared in the source.\<close>

definition cursor_truthy :: "('cursor \<Rightarrow> bool) \<Rightarrow> 'cursor option \<Rightarrow> bool" where
  "cursor_truthy truthy serverCursor =
     (case serverCursor of None \<Rightarrow> False | Some v \<Rightarrow> truthy v)"

text \<open>The async arrow mapped over \<^verbatim>\<open>persistence.collections\<close>; \<open>None\<close> is the
  \<^verbatim>\<open>undefined\<close> it returns when the condition fails.\<close>

definition collectionMessage ::
  "('cursor \<Rightarrow> bool) \<Rightarrow> ('delta, 'data, 'stamp, 'cursor, 'e) persistence \<Rightarrow> bool \<Rightarrow> col_id
    \<Rightarrow> 'e + ('delta, 'cursor) client_message option" where
  "collectionMessage truthy p reconnected cid =
     (case deltas p cid of
        Inl e \<Rightarrow> Inl e
      | Inr ds \<Rightarrow>
          (case getServerCursor p cid of
             Inl e \<Rightarrow> Inl e
           | Inr serverCursor \<Rightarrow>
               if ds \<noteq> [] \<or> \<not> cursor_truthy truthy serverCursor \<or> reconnected
               then Inr (Some (ClientSync cid serverCursor (map node_and_delta ds)))
               else Inr None))"

text \<open>\<^verbatim>\<open>a.filter(Boolean)\<close> drops the \<^verbatim>\<open>undefined\<close> entries.\<close>

definition getMessages ::
  "('cursor \<Rightarrow> bool) \<Rightarrow> ('delta, 'data, 'stamp, 'cursor, 'e) persistence \<Rightarrow> bool
    \<Rightarrow> 'e + ('delta, 'cursor) client_message list" where
  "getMessages truthy p reconnected =
     (case promise_all (map (collectionMessage truthy p reconnected) (collections p)) of
        Inl e \<Rightarrow> Inl e
      | Inr a \<Rightarrow> Inr (List.map_filter (\<lambda>m. m) a))"

subsection \<open>The hybrid logical clock\<close>

text \<open>Modelled from the spec: the type \<^verbatim>\<open>HLC\<close> of the package
  \<^verbatim>\<open>@local-first/hybrid-logical-clock\<close>, the clock \<^verbatim>\<open>{ node, timestamp, counter }\<close>; the
  field \<open>hnode\<close> is its \<^verbatim>\<open>node\<close>. The wall time \<^verbatim>\<open>Date.now()\<close> is a whole number of
  milliseconds.\<close>

record hlc =
  timestamp :: int
  counter :: nat
  hnode :: string

text \<open>Modelled from the spec: \<^verbatim>\<open>hlc.inc\<close> of the package
  \<^verbatim>\<open>@local-first/hybrid-logical-clock\<close>, which "increments the local clock against
  current wall time": the wall time when it is ahead of the clock, one more on the
  counter otherwise.\<close>

definition hlc_inc :: "hlc \<Rightarrow> int \<Rightarrow> hlc" where
  "hlc_inc local now =
     (if now > timestamp local then local\<lparr>timestamp := now, counter := 0\<rparr>
      else local\<lparr>counter := counter local + 1\<rparr>)"

text \<open>Modelled from the spec: \<^verbatim>\<open>hlc.recv\<close> of the same package, "the standard
  hybrid-logical-clock receive rule (local clock advances to be causally after both its
  previous value and the remote stamp)".\<close>

definition hlc_recv :: "hlc \<Rightarrow> hlc \<Rightarrow> int \<Rightarrow> hlc" where
  "hlc_recv local remote now =
     (if now > timestamp local \<and> now > timestamp remote
        then local\<lparr>timestamp := now, counter := 0\<rparr>
      else if timestamp local = timestamp remote
        then local\<lparr>counter := max (counter local) (counter remote) + 1\<rparr>
      else if timestamp local > timestamp remote
        then local\<lparr>counter := counter local + 1\<rparr>
      else local\<lparr>timestamp := timestamp remote, counter := counter remote + 1\<rparr>)"

text \<open>Modelled from the spec: "the clock's total order", the comparison of the same
  package: by timestamp, then by counter, then by node.\<close>

definition hlc_less :: "hlc \<Rightarrow> hlc \<Rightarrow> bool" where
  "hlc_less a b \<longleftrightarrow>
     timestamp a < timestamp b \<or>
     (timestamp a = timestamp b \<and>
       (counter a < counter b \<or> (counter a = counter b \<and> hnode a < hnode b)))"

subsection \<open>Collection state and events\<close>

text \<open>Modelled from the spec: the type \<^verbatim>\<open>CollectionState\<close> of \<^verbatim>\<open>./shared\<close>, with the
  fields \<^verbatim>\<open>cache\<close>, \<^verbatim>\<open>listeners\<close> and \<^verbatim>\<open>itemListeners\<close> that \<^verbatim>\<open>handleMessages\<close> reads.
  A listener is a function of the caller; the model names it by an identifier (\<open>'l\<close>
  for a collection-wide listener, \<open>'f\<close> for a per-node one) and records each call as
  an event.\<close>

record ('data, 'l, 'f) collection_state =
  cache :: "node_id \<rightharpoonup> 'data"
  listeners :: "'l list"
  itemListeners :: "node_id \<rightharpoonup> 'f list"

text \<open>The effects of \<^verbatim>\<open>handleMessages\<close>: the two persistence calls, a listener called
  with the array of \<^verbatim>\<open>{id, value}\<close> (as pairs), a per-node listener called with a value,
  \<^verbatim>\<open>console.log\<close>, \<^verbatim>\<open>sendCrossTabChanges({col, nodes})\<close> and \<^verbatim>\<open>recvClock\<close>. The merge
  function handed to \<^verbatim>\<open>applyDeltas\<close> is always the CRDT's and is left out of the event.\<close>

datatype ('delta, 'stamp, 'cursor, 'value, 'l, 'f) event =
  ApplyDeltas col_id "('delta, 'stamp) stamped_delta list" "'cursor option"
| DeleteDeltas col_id 'stamp
| CallListener 'l "(node_id \<times> 'value) list"
| CallItemListener 'f 'value
| ConsoleLog "node_id list"
| SendCrossTabChanges col_id "node_id list"
| RecvClock hlc

datatype 'e error = TypeError | Rejected 'e

text \<open>Modelled from the spec: the type \<^verbatim>\<open>CRDTImpl\<close> of \<^verbatim>\<open>./shared\<close>, the functions
  \<^verbatim>\<open>crdt.deltas.stamp\<close>, \<^verbatim>\<open>crdt.deltas.apply\<close> and \<^verbatim>\<open>crdt.value\<close>. The last is called with
  \<^verbatim>\<open>data[id]\<close>, which is \<^verbatim>\<open>undefined\<close> (\<open>None\<close>) when persistence returned no entry for
  \<open>id\<close>.\<close>

record ('delta, 'data, 'stamp, 'value) crdt =
  deltas_stamp :: "'delta \<Rightarrow> 'stamp"
  deltas_apply :: "'data \<Rightarrow> 'delta \<Rightarrow> 'data"
  crdt_value :: "'data option \<Rightarrow> 'value"

subsection \<open>Object.keys\<close>

text \<open>\<^verbatim>\<open>Object.keys\<close> of an object built by the assignments \<^verbatim>\<open>changed[k] = true\<close> for
  the keys \<open>k\<close> of a list, in that order: the keys that are array indices (the
  canonical decimal strings of the integers below \<open>2^32 - 1\<close>) in ascending numeric
  order, then the other keys in the order of their first assignment.\<close>

definition is_digit :: "char \<Rightarrow> bool" where
  "is_digit c \<longleftrightarrow> (48::int) \<le> of_char c \<and> (of_char c :: int) \<le> 57"

definition decimal_value :: "string \<Rightarrow> int" where
  "decimal_value s = foldl (\<lambda>n c. 10 * n + (of_char c - 48)) 0 s"

definition is_array_index :: "string \<Rightarrow> bool" where
  "is_array_index s \<longleftrightarrow>
     s \<noteq> [] \<and> list_all is_digit s \<and> (length s = 1 \<or> hd s \<noteq> CHR ''0'') \<and>
     decimal_value s < 4294967295"

definition object_keys :: "string list \<Rightarrow> string list" where
  "object_keys assigned =
     (let own = rev (remdups (rev assigned))
      in sort_key decimal_value (filter is_array_index own) @
         filter (\<lambda>k. \<not> is_array_index k) own)"

subsection \<open>handleMessages\<close>

text \<open>\<^verbatim>\<open>changedIds\<close>: the keys of the object \<^verbatim>\<open>changed\<close> after
  \<^verbatim>\<open>changed[delta.node] = true\<close> for each delta of the message in turn.\<close>

definition changedIds :: "'delta node_delta list \<Rightarrow> node_id list" where
  "changedIds ds = object_keys (map node ds)"

text \<open>The body of \<^verbatim>\<open>changedIds.forEach\<close>, on the collection state and the events so
  far. \<^verbatim>\<open>col\<close> and \<^verbatim>\<open>state[msg.collection]\<close> are the same object, so the function works
  on that one collection state.\<close>

definition forEach_changedId ::
  "('delta, 'data, 'stamp, 'value) crdt \<Rightarrow> (node_id \<rightharpoonup> 'data) \<Rightarrow> node_id
    \<Rightarrow> ('data, 'l, 'f) collection_state \<times> ('delta, 'stamp, 'cursor, 'value, 'l, 'f) event list
    \<Rightarrow> ('data, 'l, 'f) collection_state \<times> ('delta, 'stamp, 'cursor, 'value, 'l, 'f) event list" where
  "forEach_changedId crdt data nid acc =
     (let col = fst acc;
          col1 = (if cache col nid \<noteq> None
                  then col\<lparr>cache := (cache col)(nid := data nid)\<rparr> else col);
          calls = (case itemListeners col nid of
                     None \<Rightarrow> []
                   | Some fns \<Rightarrow> map (\<lambda>fn. CallItemListener fn (crdt_value crdt (data nid))) fns)
      in (col1, snd acc @ calls))"

text \<open>\<^verbatim>\<open>deltasWithStamps\<close>: each delta of the message with the stamp the CRDT derives
  from it, \<^verbatim>\<open>{...delta, stamp: crdt.deltas.stamp(delta.delta)}\<close>.\<close>

definition deltasWithStamps ::
  "('delta, 'data, 'stamp, 'value) crdt \<Rightarrow> 'delta node_delta list
    \<Rightarrow> ('delta, 'stamp) stamped_delta list" where
  "deltasWithStamps crdt ds =
     map (\<lambda>d. \<lparr>node = node d, delta = delta d, stamp = deltas_stamp crdt (delta d)\<rparr>) ds"

text \<open>The loop that finds \<^verbatim>\<open>maxStamp\<close>; \<open>None\<close> is its initial \<^verbatim>\<open>null\<close>.\<close>

definition maxStamp_step ::
  "('delta, 'data, 'stamp::linorder, 'value) crdt \<Rightarrow> 'delta node_delta \<Rightarrow> 'stamp option
    \<Rightarrow> 'stamp option" where
  "maxStamp_step crdt d maxStamp =
     (let s = deltas_stamp crdt (delta d)
      in case maxStamp of
           None \<Rightarrow> Some s
         | Some m \<Rightarrow> if s > m then Some s else Some m)"

text \<open>The async arrow mapped over \<^verbatim>\<open>messages\<close>, for one message: the events it
  causes, the collection states afterwards and what its promise settles to. The only
  \<^verbatim>\<open>await\<close> is the one on \<^verbatim>\<open>persistence.applyDeltas\<close>; everything after it runs
  without interruption. Reading \<^verbatim>\<open>col.listeners\<close> when \<^verbatim>\<open>state[msg.collection]\<close> is
  \<^verbatim>\<open>undefined\<close> throws a \<^verbatim>\<open>TypeError\<close>.\<close>

definition handleMessage ::
  "('stamp \<Rightarrow> hlc) \<Rightarrow> ('delta, 'data, 'stamp::linorder, 'value) crdt
    \<Rightarrow> ('delta, 'data, 'stamp, 'cursor, 'e) persistence
    \<Rightarrow> (col_id \<rightharpoonup> ('data, 'l, 'f) collection_state)
    \<Rightarrow> ('delta, 'stamp, 'cursor) server_message
    \<Rightarrow> ('delta, 'stamp, 'cursor, 'value, 'l, 'f) event list
        \<times> (col_id \<rightharpoonup> ('data, 'l, 'f) collection_state) \<times> ('e error + unit)" where
  "handleMessage unpack crdt p state msg =
     (case msg of
        Sync c serverCursor ds \<Rightarrow>
          (let col = state c;
               stamped = deltasWithStamps crdt ds;
               ids = changedIds ds;
               applied = [ApplyDeltas c stamped serverCursor]
           in case applyDeltas p c stamped serverCursor
                     (\<lambda>data d. deltas_apply crdt data d) of
                Inl e \<Rightarrow> (applied, state, Inl (Rejected e))
              | Inr data \<Rightarrow>
                  (case col of
                     None \<Rightarrow> (applied, state, Inl TypeError)
                   | Some cs \<Rightarrow>
                       (let changes = map (\<lambda>nid. (nid, crdt_value crdt (data nid))) ids;
                            notified = (if listeners cs \<noteq> []
                                        then map (\<lambda>listener. CallListener listener changes)
                                               (listeners cs)
                                        else []);
                            looped = fold (forEach_changedId crdt data) ids (cs, []);
                            broadcast = (if ids \<noteq> []
                                         then [ConsoleLog ids, SendCrossTabChanges c ids]
                                         else []);
                            received = (case fold (maxStamp_step crdt) ds None of
                                          None \<Rightarrow> []
                                        | Some maxStamp \<Rightarrow> [RecvClock (unpack maxStamp)])
                        in (applied @ notified @ snd looped @ broadcast @ received,
                            state(c \<mapsto> fst looped), Inr ()))))
      | Ack c deltaStamp \<Rightarrow>
          ([DeleteDeltas c deltaStamp], state,
           case deleteDeltas p c deltaStamp of
             Inl e \<Rightarrow> Inl (Rejected e)
           | Inr u \<Rightarrow> Inr ()))"

text \<open>\<^verbatim>\<open>handleMessages\<close>: the messages are handled one after the other, each on the
  collection states its predecessors left. (The arrows start together and each runs
  from its \<^verbatim>\<open>await\<close> to its end without interruption, in the order in which the
  persistence promises settle; the model takes array order.) The result lists, per
  message, its events and what its promise settled to.\<close>

fun handleMessages ::
  "('stamp \<Rightarrow> hlc) \<Rightarrow> ('delta, 'data, 'stamp::linorder, 'value) crdt
    \<Rightarrow> ('delta, 'data, 'stamp, 'cursor, 'e) persistence
    \<Rightarrow> (col_id \<rightharpoonup> ('data, 'l, 'f) collection_state)
    \<Rightarrow> ('delta, 'stamp, 'cursor) server_message list
    \<Rightarrow> (('delta, 'stamp, 'cursor, 'value, 'l, 'f) event list \<times> ('e error + unit)) list
        \<times> (col_id \<rightharpoonup> ('data, 'l, 'f) collection_state)" where
  "handleMessages unpack crdt p state [] = ([], state)"
| "handleMessages unpack crdt p state (msg # messages) =
     (case handleMessage unpack crdt p state msg of
        (evs, state1, res) \<Rightarrow>
          (case handleMessages unpack crdt p state1 messages of
             (rest, state2) \<Rightarrow> ((evs, res) # rest, state2)))"

subsection \<open>createClient\<close>

text \<open>Modelled from the spec: \<^verbatim>\<open>newCollection\<close> of \<^verbatim>\<open>./shared\<close>, "empty cache, empty
  listener lists".\<close>

definition newCollection :: "('data, 'l, 'f) collection_state" where
  "newCollection = \<lparr>cache = Map.empty, listeners = [], itemListeners = Map.empty\<rparr>"

text \<open>\<^verbatim>\<open>persistence.collections.forEach(id => (state[id] = newCollection()))\<close> on the
  empty \<^verbatim>\<open>state\<close>.\<close>

definition initialState ::
  "('delta, 'data, 'stamp, 'cursor, 'e) persistence
    \<Rightarrow> (col_id \<rightharpoonup> ('data, 'l, 'f) collection_state)" where
  "initialState p = fold (\<lambda>cid state. state(cid \<mapsto> newCollection)) (collections p) Map.empty"

text \<open>The variable \<^verbatim>\<open>clock\<close> of the closure and the clock store behind
  \<^verbatim>\<open>clockPersist\<close>. \<^verbatim>\<open>clockPersist.set\<close> is synchronous: it is a function of the store
  and the clock to the store afterwards and the exception it threw, if any. The clock a
  client starts from, \<^verbatim>\<open>clockPersist.get(...)\<close>, is the clock of the state the functions
  are given.\<close>

record 'cp clock_state =
  clock :: hlc
  store :: 'cp

type_synonym ('cp, 'e) clockPersist_set = "'cp \<Rightarrow> hlc \<Rightarrow> 'e option \<times> 'cp"

text \<open>\<^verbatim>\<open>getStamp\<close>, with \<^verbatim>\<open>Date.now()\<close> as the argument \<open>now\<close> and \<^verbatim>\<open>hlc.pack\<close> as
  the parameter \<open>pack\<close>. The assignment to \<^verbatim>\<open>clock\<close> comes before the write, so the
  state returned has the new clock also when the write throws.\<close>

definition getStamp ::
  "('cp, 'e) clockPersist_set \<Rightarrow> (hlc \<Rightarrow> 'stamp) \<Rightarrow> int \<Rightarrow> 'cp clock_state
    \<Rightarrow> ('e + 'stamp) \<times> 'cp clock_state" where
  "getStamp persist_set pack now s =
     (let clock1 = hlc_inc (clock s) now;
          written = persist_set (store s) clock1
      in (case fst written of Some e \<Rightarrow> Inl e | None \<Rightarrow> Inr (pack clock1),
          \<lparr>clock = clock1, store = snd written\<rparr>))"

definition setClock ::
  "('cp, 'e) clockPersist_set \<Rightarrow> hlc \<Rightarrow> 'cp clock_state \<Rightarrow> ('e + unit) \<times> 'cp clock_state" where
  "setClock persist_set newClock s =
     (let written = persist_set (store s) newClock
      in (case fst written of Some e \<Rightarrow> Inl e | None \<Rightarrow> Inr (),
          \<lparr>clock = newClock, store = snd written\<rparr>))"

definition recvClock ::
  "('cp, 'e) clockPersist_set \<Rightarrow> hlc \<Rightarrow> int \<Rightarrow> 'cp clock_state
    \<Rightarrow> ('e + unit) \<times> 'cp clock_state" where
  "recvClock persist_set newClock now s =
     (let clock1 = hlc_recv (clock s) newClock now;
          written = persist_set (store s) clock1
      in (case fst written of Some e \<Rightarrow> Inl e | None \<Rightarrow> Inr (),
          \<lparr>clock = clock1, store = snd written\<rparr>))"

text \<open>\<^verbatim>\<open>setClock\<close> is defined in \<^verbatim>\<open>createClient\<close> but neither returned nor passed
  on: no caller of the client can reach it.\<close>

subsection \<open>Observations\<close>

text \<open>The cache entry of a node in a collection, \<^verbatim>\<open>state[c].cache[nid]\<close>, if there is
  one.\<close>

definition cache_entry ::
  "(col_id \<rightharpoonup> ('data, 'l, 'f) collection_state) \<Rightarrow> col_id \<Rightarrow> node_id \<Rightarrow> 'data option" where
  "cache_entry state c nid = (case state c of None \<Rightarrow> None | Some cs \<Rightarrow> cache cs nid)"

text \<open>The kinds of events.\<close>

fun is_listener_call :: "('delta, 'stamp, 'cursor, 'value, 'l, 'f) event \<Rightarrow> bool" where
  "is_listener_call (CallListener l changes) = True"
| "is_listener_call e = False"

fun is_item_listener_call :: "('delta, 'stamp, 'cursor, 'value, 'l, 'f) event \<Rightarrow> bool" where
  "is_item_listener_call (CallItemListener fn v) = True"
| "is_item_listener_call e = False"

fun is_recv_clock :: "('delta, 'stamp, 'cursor, 'value, 'l, 'f) event \<Rightarrow> bool" where
  "is_recv_clock (RecvClock c) = True"
| "is_recv_clock e = False"

text \<open>A sequence of calls of the two clock closures a client and its network can
  reach, each with the wall time \<^verbatim>\<open>Date.now()\<close> it reads, and what the sequence shows:
  the clock behind each stamp that \<^verbatim>\<open>getStamp\<close> returned, with the stamp, and each
  clock that \<^verbatim>\<open>recvClock\<close> was given.\<close>

datatype clock_call = CallGetStamp int | CallRecvClock hlc int

datatype 'stamp clock_event = Issued hlc 'stamp | Received hlc

fun event_clock :: "'stamp clock_event \<Rightarrow> hlc" where
  "event_clock (Issued c st) = c"
| "event_clock (Received c) = c"

fun run_clock ::
  "('cp, 'e) clockPersist_set \<Rightarrow> (hlc \<Rightarrow> 'stamp) \<Rightarrow> clock_call list \<Rightarrow> 'cp clock_state
    \<Rightarrow> 'stamp clock_event list \<times> 'cp clock_state" where
  "run_clock persist_set pack [] s = ([], s)"
| "run_clock persist_set pack (CallGetStamp now # calls) s =
     (case getStamp persist_set pack now s of
        (r, s1) \<Rightarrow>
          (case run_clock persist_set pack calls s1 of
             (obs, s2) \<Rightarrow>
               ((case r of Inl e \<Rightarrow> [] | Inr st \<Rightarrow> [Issued (clock s1) st]) @ obs, s2)))"
| "run_clock persist_set pack (CallRecvClock remote now # calls) s =
     (case recvClock persist_set remote now s of
        (r, s1) \<Rightarrow>
          (case run_clock persist_set pack calls s1 of
             (obs, s2) \<Rightarrow> (Received remote # obs, s2)))"

text \<open>The calls of the per-node listeners registered for a node, each with the value
  projected from \<^verbatim>\<open>data[id]\<close>.\<close>

definition item_calls ::
  "('delta, 'data, 'stamp, 'value) crdt \<Rightarrow> ('data, 'l, 'f) collection_state
    \<Rightarrow> (node_id \<rightharpoonup> 'data) \<Rightarrow> node_id \<Rightarrow> ('delta, 'stamp, 'cursor, 'value, 'l, 'f) event list" where
  "item_calls crdt cs data nid =
     (case itemListeners cs nid of
        None \<Rightarrow> []
      | Some fns \<Rightarrow> map (\<lambda>fn. CallItemListener fn (crdt_value crdt (data nid))) fns)"

subsection \<open>Example inputs\<close>

text \<open>A client of two collections: \<^verbatim>\<open>todos\<close> has one pending delta and no cursor,
  \<^verbatim>\<open>notes\<close> has a cursor and nothing pending. Deltas, data, stamps, cursors, values and
  listeners are numbers; merging adds the delta, and \<^verbatim>\<open>applyDeltas\<close> merges into 100.\<close>

definition ex_crdt :: "(nat, nat, nat, nat) crdt" where
  "ex_crdt = \<lparr>deltas_stamp = (\<lambda>d. d), deltas_apply = (\<lambda>data d. data + d),
              crdt_value = (\<lambda>v. case v of None \<Rightarrow> 0 | Some x \<Rightarrow> x)\<rparr>"

definition ex_persistence :: "(nat, nat, nat, nat, string) persistence" where
  "ex_persistence =
     \<lparr>collections = [''todos'', ''notes''],
      deltas = (\<lambda>c. if c = ''todos'' then Inr [\<lparr>node = ''t1'', delta = 4, stamp = 4\<rparr>] else Inr []),
      getServerCursor = (\<lambda>c. if c = ''todos'' then Inr None else Inr (Some 5)),
      applyDeltas = (\<lambda>c ds cur f. Inr (map_of (map (\<lambda>d. (node d, f 100 (delta d))) ds))),
      deleteDeltas = (\<lambda>c s. Inr ())\<rparr>"

text \<open>The truthiness of a number, for the cursors of the examples, and a client whose
  one collection has nothing pending and the cursor 0.\<close>

definition number_truthy :: "nat \<Rightarrow> bool" where
  "number_truthy n \<longleftrightarrow> n \<noteq> 0"

definition ex_polled :: "(nat, nat, nat, nat, string) persistence" where
  "ex_polled =
     \<lparr>collections = [''notes''],
      deltas = (\<lambda>c. Inr []),
      getServerCursor = (\<lambda>c. Inr (Some 0)),
      applyDeltas = (\<lambda>c ds cur f. Inr Map.empty),
      deleteDeltas = (\<lambda>c s. Inr ())\<rparr>"

definition ex_unpack :: "nat \<Rightarrow> hlc" where
  "ex_unpack s = \<lparr>timestamp = int s, counter = 0, hnode = ''server''\<rparr>"

text \<open>In \<^verbatim>\<open>todos\<close> the node \<^verbatim>\<open>t1\<close> is cached and the node \<^verbatim>\<open>t2\<close> is not; there is one
  collection-wide listener, and one per-node listener on \<^verbatim>\<open>t2\<close>. The sync message changes
  both nodes.\<close>

definition ex_todos :: "(nat, nat, nat) collection_state" where
  "ex_todos = \<lparr>cache = [''t1'' \<mapsto> 1], listeners = [1], itemListeners = [''t2'' \<mapsto> [7]]\<rparr>"

definition ex_state :: "col_id \<rightharpoonup> (nat, nat, nat) collection_state" where
  "ex_state = [''todos'' \<mapsto> ex_todos, ''notes'' \<mapsto> newCollection]"

definition ex_deltas :: "nat node_delta list" where
  "ex_deltas = [\<lparr>node = ''t1'', delta = 3\<rparr>, \<lparr>node = ''t2'', delta = 8\<rparr>]"

definition ex_sync :: "(nat, nat, nat) server_message" where
  "ex_sync = Sync ''todos'' (Some 9) ex_deltas"

definition ex_merged :: "node_id \<rightharpoonup> nat" where
  "ex_merged = [''t1'' \<mapsto> 103, ''t2'' \<mapsto> 108]"

text \<open>A clock at timestamp 100, a clock store that keeps every clock written, and one
  that throws on every write. The packed form of a clock is the triple of its fields.\<close>

definition ex_clock :: "hlc list clock_state" where
  "ex_clock = \<lparr>clock = \<lparr>timestamp = 100, counter = 2, hnode = ''a''\<rparr>, store = []\<rparr>"

definition ex_remote :: hlc where
  "ex_remote = \<lparr>timestamp = 200, counter = 5, hnode = ''b''\<rparr>"

definition ex_set :: "(hlc list, string) clockPersist_set" where
  "ex_set written c = (None, c # written)"

definition ex_failing_set :: "(hlc list, string) clockPersist_set" where
  "ex_failing_set written c = (Some ''QuotaExceededError'', written)"

definition ex_pack :: "hlc \<Rightarrow> int \<times> nat \<times> string" where
  "ex_pack c = (timestamp c, counter c, hnode c)"

section \<open>Properties\<close>

subsection \<open>Auxiliary facts\<close>

lemma promise_all_Inr: "promise_all ps = Inr vs \<longleftrightarrow> ps = map Inr vs"
proof (induction ps arbitrary: vs)
  case Nil
  then show ?case by auto
next
  case (Cons x ps)
  show ?case
  proof (cases x)
    case (Inl e)
    then show ?thesis by auto
  next
    case (Inr v)
    show ?thesis
    proof (cases "promise_all ps")
      case (Inl e)
      with Cons.IH have "\<And>ws. ps \<noteq> map Inr ws" by auto
      with Inl Inr show ?thesis by (cases vs) auto
    next
      case r: (Inr ws)
      with Cons.IH have "ps = map Inr ws" by auto
      with r Inr show ?thesis by (cases vs) (auto simp: inj_map_eq_map)
    qed
  qed
qed

lemma promise_all_fulfilled:
  assumes "\<forall>x\<in>set ps. \<exists>v. x = Inr v"
  shows "\<exists>vs. promise_all ps = Inr vs"
  using assms
proof (induction ps)
  case Nil
  then show ?case by simp
next
  case (Cons x ps)
  then obtain v vs where "x = Inr v" "promise_all ps = Inr vs" by auto
  then show ?case by simp
qed

lemma set_map_filter_id: "set (List.map_filter (\<lambda>m. m) a) = {m. Some m \<in> set a}"
  by (induction a) (auto simp: List.map_filter_simps split: option.splits)

lemma getMessages_set:
  assumes "getMessages truthy p reconnected = Inr msgs"
  shows "set msgs =
    {m. \<exists>cid\<in>set (collections p). collectionMessage truthy p reconnected cid = Inr (Some m)}"
proof -
  let ?f = "collectionMessage truthy p reconnected"
  from assms obtain a where a: "promise_all (map ?f (collections p)) = Inr a"
    and msgs: "msgs = List.map_filter (\<lambda>m. m) a"
    by (auto simp: getMessages_def split: sum.splits)
  from a have "map ?f (collections p) = map Inr a"
    by (simp add: promise_all_Inr)
  then have "Inr ` set a = ?f ` set (collections p)"
    by (metis set_map)
  then have "\<And>m. Some m \<in> set a \<longleftrightarrow> (\<exists>cid\<in>set (collections p). ?f cid = Inr (Some m))"
    by (metis (no_types, lifting) image_iff sum.inject(2))
  then show ?thesis by (simp add: msgs set_map_filter_id)
qed

lemma collectionMessage_Some:
  assumes "deltas p cid = Inr ds" "getServerCursor p cid = Inr cur"
  shows "collectionMessage truthy p reconnected cid = Inr (Some m) \<longleftrightarrow>
     (ds \<noteq> [] \<or> \<not> cursor_truthy truthy cur \<or> reconnected) \<and>
     m = ClientSync cid cur (map node_and_delta ds)"
  using assms by (auto simp: collectionMessage_def)

lemma collectionMessage_collection:
  "collectionMessage truthy p reconnected cid = Inr (Some m) \<Longrightarrow> cm_collection m = cid"
  by (auto simp: collectionMessage_def split: sum.splits if_splits)

lemma node_and_delta_fields:
  "map node (map node_and_delta ds) = map node ds"
  "map delta (map node_and_delta ds) = map delta ds"
  by (simp_all add: node_and_delta_def comp_def)

lemma set_object_keys: "set (object_keys ks) = set ks"
  by (auto simp: object_keys_def Let_def)

lemma distinct_object_keys: "distinct (object_keys ks)"
  by (auto simp: object_keys_def Let_def)

lemma forEach_changedId_apply:
  "forEach_changedId crdt data nid (cs, evs) =
     (if cache cs nid \<noteq> None then cs\<lparr>cache := (cache cs)(nid := data nid)\<rparr> else cs,
      evs @ (case itemListeners cs nid of
               None \<Rightarrow> []
             | Some fns \<Rightarrow> map (\<lambda>fn. CallItemListener fn (crdt_value crdt (data nid))) fns))"
  by (simp add: forEach_changedId_def)

lemma loop_cache:
  "cache (fst (fold (forEach_changedId crdt data) ids (cs, evs))) n =
     (if n \<in> set ids \<and> cache cs n \<noteq> None then data n else cache cs n)"
  by (induction ids arbitrary: cs evs) (auto simp: forEach_changedId_apply)

lemma loop_listeners:
  "listeners (fst (fold (forEach_changedId crdt data) ids (cs, evs))) = listeners cs"
  by (induction ids arbitrary: cs evs) (auto simp: forEach_changedId_apply)

lemma loop_itemListeners:
  "itemListeners (fst (fold (forEach_changedId crdt data) ids (cs, evs))) = itemListeners cs"
  by (induction ids arbitrary: cs evs) (auto simp: forEach_changedId_apply)

lemma loop_events:
  "snd (fold (forEach_changedId crdt data) ids (cs, evs)) =
     evs @ concat (map (\<lambda>nid. case itemListeners cs nid of
                          None \<Rightarrow> []
                        | Some fns \<Rightarrow> map (\<lambda>fn. CallItemListener fn (crdt_value crdt (data nid))) fns) ids)"
proof (induction ids arbitrary: cs evs)
  case Nil
  then show ?case by simp
next
  case (Cons a ids)
  define cs1 where "cs1 = (if cache cs a \<noteq> None then cs\<lparr>cache := (cache cs)(a := data a)\<rparr> else cs)"
  have same: "itemListeners cs1 = itemListeners cs"
    by (simp add: cs1_def)
  show ?case
    unfolding fold_simps forEach_changedId_apply cs1_def [symmetric]
    by (simp add: Cons.IH same)
qed

lemma maxStamp_step_Some:
  "maxStamp_step crdt d (Some m) = Some (max m (deltas_stamp crdt (delta d)))"
  by (auto simp: maxStamp_step_def max_def Let_def)

lemma Max_insert_max:
  fixes m :: "'a::linorder"
  assumes "finite A"
  shows "Max (insert (max m s) A) = Max (insert m (insert s A))"
proof (cases "A = {}")
  case True
  then show ?thesis by (simp add: max.commute)
next
  case False
  with assms show ?thesis by (simp add: max.assoc)
qed

lemma maxStamp_fold_Some:
  "fold (maxStamp_step crdt) ds (Some m) =
     Some (Max (insert m ((\<lambda>d. deltas_stamp crdt (delta d)) ` set ds)))"
proof (induction ds arbitrary: m)
  case Nil
  then show ?case by simp
next
  case (Cons d ds)
  show ?case
    by (simp add: maxStamp_step_Some Cons.IH Max_insert_max)
qed

lemma maxStamp_fold:
  "fold (maxStamp_step crdt) ds None =
     (if ds = [] then None else Some (Max ((\<lambda>d. deltas_stamp crdt (delta d)) ` set ds)))"
  by (cases ds) (simp_all add: maxStamp_step_def maxStamp_fold_Some)

lemma handleMessage_Ack:
  "handleMessage unpack crdt p state (Ack c deltaStamp) =
     ([DeleteDeltas c deltaStamp], state,
      case deleteDeltas p c deltaStamp of Inl e \<Rightarrow> Inl (Rejected e) | Inr u \<Rightarrow> Inr ())"
  by (simp add: handleMessage_def)

lemma handleMessage_Sync_rejected:
  assumes "applyDeltas p c (deltasWithStamps crdt ds) cur (deltas_apply crdt) = Inl e"
  shows "handleMessage unpack crdt p state (Sync c cur ds) =
     ([ApplyDeltas c (deltasWithStamps crdt ds) cur], state, Inl (Rejected e))"
  using assms by (simp add: handleMessage_def)

lemma handleMessage_Sync_untracked:
  assumes "applyDeltas p c (deltasWithStamps crdt ds) cur (deltas_apply crdt) = Inr data"
    and "state c = None"
  shows "handleMessage unpack crdt p state (Sync c cur ds) =
     ([ApplyDeltas c (deltasWithStamps crdt ds) cur], state, Inl TypeError)"
  using assms by (simp add: handleMessage_def)

lemma set_changedIds: "set (changedIds ds) = node ` set ds"
  by (simp add: changedIds_def set_object_keys)

lemma distinct_changedIds: "distinct (changedIds ds)"
  by (simp add: changedIds_def distinct_object_keys)

lemma changedIds_Nil: "changedIds ds = [] \<longleftrightarrow> ds = []"
  using set_changedIds [of ds] by (metis image_is_empty set_empty)

lemma handleMessage_Sync_tracked:
  fixes crdt :: "('delta, 'data, 'stamp::linorder, 'value) crdt"
    and p :: "('delta, 'data, 'stamp, 'cursor, 'e) persistence"
    and state :: "col_id \<rightharpoonup> ('data, 'l, 'f) collection_state"
  assumes "applyDeltas p c (deltasWithStamps crdt ds) cur (deltas_apply crdt) = Inr data"
    and "state c = Some cs"
  shows "handleMessage unpack crdt p state (Sync c cur ds) =
     ([ApplyDeltas c (deltasWithStamps crdt ds) cur] @
      map (\<lambda>l. CallListener l (map (\<lambda>nid. (nid, crdt_value crdt (data nid)))
                                (changedIds ds))) (listeners cs) @
      concat (map (item_calls crdt cs data) (changedIds ds)) @
      (if ds \<noteq> [] then [ConsoleLog (changedIds ds),
                          SendCrossTabChanges c (changedIds ds)] else []) @
      (if ds \<noteq> [] then [RecvClock (unpack (Max ((\<lambda>d. deltas_stamp crdt (delta d)) ` set ds)))]
       else []),
      state(c \<mapsto> fst (fold (forEach_changedId crdt data) (changedIds ds)
                         (cs, [] :: ('delta, 'stamp::linorder, 'cursor, 'value, 'l, 'f) event list))),
      Inr ())"
  using assms
  by (simp add: handleMessage_def Let_def loop_events maxStamp_fold changedIds_Nil
      item_calls_def [abs_def])

lemma handleMessage_Sync_fulfilled:
  fixes crdt :: "('delta, 'data, 'stamp::linorder, 'value) crdt"
    and p :: "('delta, 'data, 'stamp, 'cursor, 'e) persistence"
    and state :: "col_id \<rightharpoonup> ('data, 'l, 'f) collection_state"
  shows "snd (snd (handleMessage unpack crdt p state (Sync c cur ds))) = Inr () \<longleftrightarrow>
     (\<exists>cs data. state c = Some cs \<and>
        applyDeltas p c (deltasWithStamps crdt ds) cur (deltas_apply crdt) = Inr data)"
proof (cases "applyDeltas p c (deltasWithStamps crdt ds) cur (deltas_apply crdt)")
  case (Inl e)
  then show ?thesis by (simp add: handleMessage_Sync_rejected)
next
  case (Inr data)
  show ?thesis
  proof (cases "state c")
    case None
    with Inr show ?thesis by (simp add: handleMessage_Sync_untracked)
  next
    case (Some cs)
    with Inr show ?thesis
      by (simp add: handleMessage_Sync_tracked [where state = state and c = c])
  qed
qed

lemma handleMessages_single:
  "handleMessages unpack crdt p state [msg] =
     ([(fst (handleMessage unpack crdt p state msg),
        snd (snd (handleMessage unpack crdt p state msg)))],
      fst (snd (handleMessage unpack crdt p state msg)))"
  by (simp split: prod.splits)

lemma fold_upd_tracks:
  "fold (\<lambda>cid state. state(cid \<mapsto> v)) cs m c \<noteq> None \<longleftrightarrow> c \<in> set cs \<or> m c \<noteq> None"
  by (induction cs arbitrary: m) auto

lemma initialState_tracks: "initialState p c \<noteq> None \<longleftrightarrow> c \<in> set (collections p)"
  using fold_upd_tracks [of newCollection "collections p" Map.empty c]
  by (simp add: initialState_def)

lemma handleMessage_absent_stays_absent:
  assumes "cache_entry state c n = None"
  shows "cache_entry (fst (snd (handleMessage unpack crdt p state msg))) c n = None"
proof (cases msg)
  case (Ack c' s)
  with assms show ?thesis by (simp add: handleMessage_Ack)
next
  case (Sync c' cur ds)
  show ?thesis
  proof (cases "applyDeltas p c' (deltasWithStamps crdt ds) cur (deltas_apply crdt)")
    case (Inl e)
    with assms Sync show ?thesis by (simp add: handleMessage_Sync_rejected)
  next
    case (Inr data)
    show ?thesis
    proof (cases "state c'")
      case None
      with assms Sync Inr show ?thesis by (simp add: handleMessage_Sync_untracked)
    next
      case (Some cs)
      with assms Sync Inr show ?thesis
        by (auto simp: handleMessage_Sync_tracked cache_entry_def loop_cache)
    qed
  qed
qed


lemma filter_listener_calls:
  "filter is_listener_call (map (\<lambda>l. CallListener l changes) ls) = map (\<lambda>l. CallListener l changes) ls"
  by (induction ls) simp_all

lemma filter_item_calls:
  "filter is_item_listener_call (item_calls crdt cs data nid) = item_calls crdt cs data nid"
  "filter is_listener_call (item_calls crdt cs data nid) = []"
  "filter is_recv_clock (item_calls crdt cs data nid) = []"
  by (auto simp: item_calls_def filter_empty_conv filter_id_conv split: option.splits)

lemma filter_item_calls_concat:
  "filter is_item_listener_call (concat (map (item_calls crdt cs data) ids)) =
     concat (map (item_calls crdt cs data) ids)"
  "filter is_listener_call (concat (map (item_calls crdt cs data) ids)) = []"
  "filter is_recv_clock (concat (map (item_calls crdt cs data) ids)) = []"
  by (induction ids) (simp_all add: filter_item_calls)

lemma filter_other_listener_calls:
  "filter is_item_listener_call (map (\<lambda>l. CallListener l changes) ls) = []"
  "filter is_recv_clock (map (\<lambda>l. CallListener l changes) ls) = []"
  by (simp_all add: filter_empty_conv)

text \<open>The clock's order is a strict total order, and both clock operations move the
  clock forward in it.\<close>

lemma hlc_less_irrefl: "\<not> hlc_less a a"
  by (simp add: hlc_less_def)

lemma hlc_less_trans: "hlc_less a b \<Longrightarrow> hlc_less b c \<Longrightarrow> hlc_less a c"
  by (auto simp: hlc_less_def)

lemma hlc_less_total: "a \<noteq> b \<Longrightarrow> hlc_less a b \<or> hlc_less b a"
  by (cases a; cases b) (auto simp: hlc_less_def)

lemma hlc_inc_greater: "hlc_less c (hlc_inc c now)"
  by (simp add: hlc_less_def hlc_inc_def)

lemma hlc_recv_greater_local: "hlc_less c (hlc_recv c remote now)"
  by (auto simp: hlc_less_def hlc_recv_def max_def)

lemma hlc_recv_greater_remote: "hlc_less remote (hlc_recv c remote now)"
  by (auto simp: hlc_less_def hlc_recv_def max_def)

lemma getStamp_clock: "clock (snd (getStamp persist_set pack now s)) = hlc_inc (clock s) now"
  by (simp add: getStamp_def Let_def)

lemma getStamp_returns:
  "fst (getStamp persist_set pack now s) = Inr st \<Longrightarrow>
     st = pack (clock (snd (getStamp persist_set pack now s)))"
  by (auto simp: getStamp_def Let_def split: option.splits)

lemma recvClock_clock:
  "clock (snd (recvClock persist_set remote now s)) = hlc_recv (clock s) remote now"
  by (simp add: recvClock_def Let_def)

lemma setClock_clock: "clock (snd (setClock persist_set newClock s)) = newClock"
  by (simp add: setClock_def Let_def)

lemma run_clock_issued_after_start:
  assumes "run_clock persist_set pack calls s = (obs, s')" and "Issued c st \<in> set obs"
  shows "st = pack c \<and> hlc_less (clock s) c"
  using assms
proof (induction calls arbitrary: s obs s')
  case Nil
  then show ?case by simp
next
  case (Cons call calls)
  show ?case
  proof (cases call)
    case (CallGetStamp now)
    obtain r s1 where g: "getStamp persist_set pack now s = (r, s1)"
      by (cases "getStamp persist_set pack now s")
    obtain rest s2 where run: "run_clock persist_set pack calls s1 = (rest, s2)"
      by (cases "run_clock persist_set pack calls s1")
    have adv: "hlc_less (clock s) (clock s1)"
      using getStamp_clock [of persist_set pack now s] g by (simp add: hlc_inc_greater)
    from Cons.prems CallGetStamp g run
    have obs: "obs = (case r of Inl e \<Rightarrow> [] | Inr st \<Rightarrow> [Issued (clock s1) st]) @ rest"
      by simp
    with Cons.prems(2) consider (head) "r = Inr st" "c = clock s1" | (tail) "Issued c st \<in> set rest"
      by (auto split: sum.splits)
    then show ?thesis
    proof cases
      case head
      with g getStamp_returns [of persist_set pack now s st] adv show ?thesis by simp
    next
      case tail
      from Cons.IH [OF run tail] adv show ?thesis by (blast intro: hlc_less_trans)
    qed
  next
    case (CallRecvClock remote now)
    obtain r s1 where g: "recvClock persist_set remote now s = (r, s1)"
      by (cases "recvClock persist_set remote now s")
    obtain rest s2 where run: "run_clock persist_set pack calls s1 = (rest, s2)"
      by (cases "run_clock persist_set pack calls s1")
    have adv: "hlc_less (clock s) (clock s1)"
      using recvClock_clock [of persist_set remote now s] g by (simp add: hlc_recv_greater_local)
    from Cons.prems CallRecvClock g run have "Issued c st \<in> set rest" by auto
    from Cons.IH [OF run this] adv show ?thesis by (blast intro: hlc_less_trans)
  qed
qed

lemma ex_tracked: "ex_state ''todos'' = Some ex_todos"
  by (simp add: ex_state_def)


lemma ex_applied:
  "applyDeltas ex_persistence ''todos'' (deltasWithStamps ex_crdt ex_deltas) (Some 9)
     (deltas_apply ex_crdt) = Inr ex_merged"
  by (auto simp: ex_persistence_def deltasWithStamps_def ex_crdt_def ex_deltas_def ex_merged_def)

lemma ex_changedIds: "changedIds ex_deltas = [''t1'', ''t2'']"
  by (simp add: changedIds_def object_keys_def ex_deltas_def is_array_index_def is_digit_def)

lemma ex_item_calls:
  "item_calls ex_crdt ex_todos ex_merged ''t1'' = []"
  "item_calls ex_crdt ex_todos ex_merged ''t2'' = [CallItemListener 7 108]"
  by (simp_all add: item_calls_def ex_todos_def ex_merged_def ex_crdt_def)

lemma ex_fulfilled:
  "snd (snd (handleMessage ex_unpack ex_crdt ex_persistence ex_state ex_sync)) = Inr ()"
  by (simp add: ex_sync_def
      handleMessage_Sync_tracked [where state = ex_state and c = "''todos''",
        OF ex_applied ex_tracked])

subsection \<open>The outbound message builder\<close>

text \<open>C1, as stated, fails: the test on the cursor is \<^verbatim>\<open>!serverCursor\<close>, so a collection
  whose cursor exists but is falsy gets a message on every pass. Here \<^verbatim>\<open>notes\<close> has the
  cursor 0 and nothing pending, \<open>reconnected\<close> is false, and a message for it is sent.\<close>

theorem falsy_cursor_is_announced:
  "getServerCursor ex_polled ''notes'' = Inr (Some 0) \<and>
   deltas ex_polled ''notes'' = Inr [] \<and>
   getMessages number_truthy ex_polled False = Inr [ClientSync ''notes'' (Some 0) []]"
  by (simp add: getMessages_def collectionMessage_def cursor_truthy_def number_truthy_def
      ex_polled_def List.map_filter_simps)

text \<open>C1, amended. When the reads of persistence succeed, \<^verbatim>\<open>getMessages\<close> returns a list
  of messages in which a collection known to persistence has a message if and only if
  its list of pending deltas is not empty, or its server cursor is falsy (absent, or a
  falsy value such as 0), or \<open>reconnected\<close> is true; and every message for the
  collection carries its current cursor and, in order, the node and the delta of each
  of its pending deltas. So a collection with a truthy cursor and nothing pending gets
  no message when \<open>reconnected\<close> is false, and every collection gets one when it is
  true.\<close>

theorem getMessages_includes_iff:
  assumes reads: "\<forall>cid\<in>set (collections p).
      (\<exists>ds. deltas p cid = Inr ds) \<and> (\<exists>cur. getServerCursor p cid = Inr cur)"
  shows "\<exists>msgs. getMessages truthy p reconnected = Inr msgs \<and>
     (\<forall>cid\<in>set (collections p). \<forall>ds cur.
        deltas p cid = Inr ds \<longrightarrow> getServerCursor p cid = Inr cur \<longrightarrow>
          ((\<exists>m\<in>set msgs. cm_collection m = cid) \<longleftrightarrow>
             ds \<noteq> [] \<or> \<not> cursor_truthy truthy cur \<or> reconnected) \<and>
          (\<forall>m\<in>set msgs. cm_collection m = cid \<longrightarrow>
             cm_serverCursor m = cur \<and>
             map node (cm_deltas m) = map node ds \<and>
             map delta (cm_deltas m) = map delta ds))"
proof -
  let ?f = "collectionMessage truthy p reconnected"
  have "\<forall>x\<in>set (map ?f (collections p)). \<exists>v. x = Inr v"
    using reads by (auto simp: collectionMessage_def)
  then obtain a where "promise_all (map ?f (collections p)) = Inr a"
    using promise_all_fulfilled by blast
  then have ret: "getMessages truthy p reconnected = Inr (List.map_filter (\<lambda>m. m) a)"
    by (simp add: getMessages_def)
  define msgs where "msgs = List.map_filter (\<lambda>m. m) a"
  have mem: "m \<in> set msgs \<longleftrightarrow> (\<exists>cid\<in>set (collections p). ?f cid = Inr (Some m))" for m
    using getMessages_set [OF ret] by (simp add: msgs_def)
  have "((\<exists>m\<in>set msgs. cm_collection m = cid) \<longleftrightarrow>
           ds \<noteq> [] \<or> \<not> cursor_truthy truthy cur \<or> reconnected) \<and>
        (\<forall>m\<in>set msgs. cm_collection m = cid \<longrightarrow>
           cm_serverCursor m = cur \<and>
           map node (cm_deltas m) = map node ds \<and>
           map delta (cm_deltas m) = map delta ds)"
    if cid: "cid \<in> set (collections p)" and ds: "deltas p cid = Inr ds"
      and cur: "getServerCursor p cid = Inr cur" for cid ds cur
  proof (intro conjI iffI ballI impI)
    assume "\<exists>m\<in>set msgs. cm_collection m = cid"
    then obtain m c where "c \<in> set (collections p)" "?f c = Inr (Some m)"
      "cm_collection m = cid" using mem by blast
    then have "?f cid = Inr (Some m)"
      using collectionMessage_collection by blast
    then show "ds \<noteq> [] \<or> \<not> cursor_truthy truthy cur \<or> reconnected"
      using collectionMessage_Some [OF ds cur] by blast
  next
    assume "ds \<noteq> [] \<or> \<not> cursor_truthy truthy cur \<or> reconnected"
    then have "?f cid = Inr (Some (ClientSync cid cur (map node_and_delta ds)))"
      using collectionMessage_Some [OF ds cur] by blast
    then have "ClientSync cid cur (map node_and_delta ds) \<in> set msgs"
      using mem cid by blast
    then show "\<exists>m\<in>set msgs. cm_collection m = cid" by force
  next
    fix m assume m: "m \<in> set msgs" "cm_collection m = cid"
    then obtain c where "c \<in> set (collections p)" "?f c = Inr (Some m)"
      using mem by blast
    with m(2) have "?f cid = Inr (Some m)"
      using collectionMessage_collection by blast
    then have sent: "m = ClientSync cid cur (map node_and_delta ds)"
      using collectionMessage_Some [OF ds cur] by blast
    show "cm_serverCursor m = cur"
      by (simp add: sent)
    show "map node (cm_deltas m) = map node ds"
      by (simp add: sent node_and_delta_fields del: map_map)
    show "map delta (cm_deltas m) = map delta ds"
      by (simp add: sent node_and_delta_fields del: map_map)
  qed
  then show ?thesis using ret unfolding msgs_def by blast
qed

theorem getMessages_includes_iff_witness:
  "collections ex_persistence = [''todos'', ''notes''] \<and>
   deltas ex_persistence ''todos'' = Inr [\<lparr>node = ''t1'', delta = 4, stamp = 4\<rparr>] \<and>
   getServerCursor ex_persistence ''todos'' = Inr None \<and>
   deltas ex_persistence ''notes'' = Inr [] \<and>
   getServerCursor ex_persistence ''notes'' = Inr (Some 5) \<and>
   cursor_truthy number_truthy (Some 5) \<and>
   (\<exists>msgs. getMessages number_truthy ex_persistence False = Inr msgs \<and>
      (\<exists>m\<in>set msgs. cm_collection m = ''todos'' \<and> cm_serverCursor m = None \<and>
         map node (cm_deltas m) = [''t1''] \<and> map delta (cm_deltas m) = [4]) \<and>
      \<not> (\<exists>m\<in>set msgs. cm_collection m = ''notes'')) \<and>
   (\<exists>msgs. getMessages number_truthy ex_persistence True = Inr msgs \<and>
      (\<exists>m\<in>set msgs. cm_collection m = ''todos'' \<and> cm_serverCursor m = None \<and>
         map node (cm_deltas m) = [''t1''] \<and> map delta (cm_deltas m) = [4]) \<and>
      (\<exists>m\<in>set msgs. cm_collection m = ''notes'' \<and> cm_serverCursor m = Some 5 \<and>
         cm_deltas m = [])) \<and>
   getMessages number_truthy ex_persistence False =
     Inr [ClientSync ''todos'' None [\<lparr>node = ''t1'', delta = 4\<rparr>]] \<and>
   getMessages number_truthy ex_persistence True =
     Inr [ClientSync ''todos'' None [\<lparr>node = ''t1'', delta = 4\<rparr>],
          ClientSync ''notes'' (Some 5) []]"
proof -
  have cols: "collections ex_persistence = [''todos'', ''notes'']"
    and todos: "deltas ex_persistence ''todos'' = Inr [\<lparr>node = ''t1'', delta = 4, stamp = 4\<rparr>]"
      "getServerCursor ex_persistence ''todos'' = Inr None"
    and polled: "deltas ex_persistence ''notes'' = Inr []"
      "getServerCursor ex_persistence ''notes'' = Inr (Some 5)"
    by (simp_all add: ex_persistence_def)
  have truthy: "cursor_truthy number_truthy (Some 5)"
    and falsy: "\<not> cursor_truthy number_truthy None"
    by (simp_all add: cursor_truthy_def number_truthy_def)
  have reads: "\<forall>cid\<in>set (collections ex_persistence).
      (\<exists>ds. deltas ex_persistence cid = Inr ds) \<and>
      (\<exists>cur. getServerCursor ex_persistence cid = Inr cur)"
    by (simp add: ex_persistence_def)
  have known: "''todos'' \<in> set (collections ex_persistence)"
    "''notes'' \<in> set (collections ex_persistence)"
    by (simp_all add: cols)
  from getMessages_includes_iff [OF reads, of number_truthy False]
  obtain quiet where quiet: "getMessages number_truthy ex_persistence False = Inr quiet"
    and q: "\<forall>cid\<in>set (collections ex_persistence). \<forall>ds cur.
        deltas ex_persistence cid = Inr ds \<longrightarrow> getServerCursor ex_persistence cid = Inr cur \<longrightarrow>
          ((\<exists>m\<in>set quiet. cm_collection m = cid) \<longleftrightarrow>
             ds \<noteq> [] \<or> \<not> cursor_truthy number_truthy cur \<or> False) \<and>
          (\<forall>m\<in>set quiet. cm_collection m = cid \<longrightarrow>
             cm_serverCursor m = cur \<and>
             map node (cm_deltas m) = map node ds \<and>
             map delta (cm_deltas m) = map delta ds)"
    by blast
  from q known(1) todos have q1: "\<exists>m\<in>set quiet. cm_collection m = ''todos'' \<and>
      cm_serverCursor m = None \<and> map node (cm_deltas m) = [''t1''] \<and>
      map delta (cm_deltas m) = [4]"
    by fastforce
  from q known(2) polled truthy have q2: "\<not> (\<exists>m\<in>set quiet. cm_collection m = ''notes'')"
    by fastforce
  from getMessages_includes_iff [OF reads, of number_truthy True]
  obtain fresh where fresh: "getMessages number_truthy ex_persistence True = Inr fresh"
    and f: "\<forall>cid\<in>set (collections ex_persistence). \<forall>ds cur.
        deltas ex_persistence cid = Inr ds \<longrightarrow> getServerCursor ex_persistence cid = Inr cur \<longrightarrow>
          ((\<exists>m\<in>set fresh. cm_collection m = cid) \<longleftrightarrow>
             ds \<noteq> [] \<or> \<not> cursor_truthy number_truthy cur \<or> True) \<and>
          (\<forall>m\<in>set fresh. cm_collection m = cid \<longrightarrow>
             cm_serverCursor m = cur \<and>
             map node (cm_deltas m) = map node ds \<and>
             map delta (cm_deltas m) = map delta ds)"
    by blast
  from f known(1) todos have f1: "\<exists>m\<in>set fresh. cm_collection m = ''todos'' \<and>
      cm_serverCursor m = None \<and> map node (cm_deltas m) = [''t1''] \<and>
      map delta (cm_deltas m) = [4]"
    by fastforce
  from f known(2) polled have f2: "\<exists>m\<in>set fresh. cm_collection m = ''notes'' \<and>
      cm_serverCursor m = Some 5 \<and> cm_deltas m = []"
    by fastforce
  have run: "getMessages number_truthy ex_persistence False =
      Inr [ClientSync ''todos'' None [\<lparr>node = ''t1'', delta = 4\<rparr>]]"
    "getMessages number_truthy ex_persistence True =
      Inr [ClientSync ''todos'' None [\<lparr>node = ''t1'', delta = 4\<rparr>],
           ClientSync ''notes'' (Some 5) []]"
    by (simp_all add: getMessages_def ex_persistence_def collectionMessage_def
        cursor_truthy_def number_truthy_def List.map_filter_simps node_and_delta_def)
  from quiet q1 q2 have a: "\<exists>msgs. getMessages number_truthy ex_persistence False = Inr msgs \<and>
      (\<exists>m\<in>set msgs. cm_collection m = ''todos'' \<and> cm_serverCursor m = None \<and>
         map node (cm_deltas m) = [''t1''] \<and> map delta (cm_deltas m) = [4]) \<and>
      \<not> (\<exists>m\<in>set msgs. cm_collection m = ''notes'')"
    by - (rule exI [of _ quiet], intro conjI, assumption+)
  from fresh f1 f2 have b: "\<exists>msgs. getMessages number_truthy ex_persistence True = Inr msgs \<and>
      (\<exists>m\<in>set msgs. cm_collection m = ''todos'' \<and> cm_serverCursor m = None \<and>
         map node (cm_deltas m) = [''t1''] \<and> map delta (cm_deltas m) = [4]) \<and>
      (\<exists>m\<in>set msgs. cm_collection m = ''notes'' \<and> cm_serverCursor m = Some 5 \<and>
         cm_deltas m = [])"
    by - (rule exI [of _ fresh], intro conjI, assumption+)
  from cols todos polled truthy a b run show ?thesis
    by - (intro conjI, assumption+)
qed

subsection \<open>The inbound message applier\<close>

text \<open>C2. Applying a sync message never creates a cache entry for a changed node that
  had none, and when \<^verbatim>\<open>applyDeltas\<close> returned the merged data, the cache entry of a
  changed node that had one becomes the merged data of that node.\<close>

theorem sync_cache_isolation:
  assumes "n \<in> node ` set ds"
  shows "(cache_entry state c n = None \<longrightarrow>
           cache_entry (fst (snd (handleMessage unpack crdt p state (Sync c cur ds)))) c n = None) \<and>
         (cache_entry state c n \<noteq> None \<longrightarrow>
           applyDeltas p c (deltasWithStamps crdt ds) cur (deltas_apply crdt) = Inr data \<longrightarrow>
           cache_entry (fst (snd (handleMessage unpack crdt p state (Sync c cur ds)))) c n = data n)"
proof (intro conjI impI)
  assume "cache_entry state c n = None"
  then show "cache_entry (fst (snd (handleMessage unpack crdt p state (Sync c cur ds)))) c n = None"
    by (rule handleMessage_absent_stays_absent)
next
  assume present: "cache_entry state c n \<noteq> None"
    and applied: "applyDeltas p c (deltasWithStamps crdt ds) cur (deltas_apply crdt) = Inr data"
  from present obtain cs where cs: "state c = Some cs" and "cache cs n \<noteq> None"
    by (auto simp: cache_entry_def split: option.splits)
  moreover have "n \<in> set (changedIds ds)"
    using assms by (simp add: set_changedIds)
  ultimately show "cache_entry (fst (snd (handleMessage unpack crdt p state (Sync c cur ds)))) c n = data n"
    by (simp add: handleMessage_Sync_tracked [where state = state and c = c, OF applied cs]
        cache_entry_def loop_cache)
qed

theorem sync_cache_isolation_witness:
  "''t1'' \<in> node ` set ex_deltas \<and> ''t2'' \<in> node ` set ex_deltas \<and>
   cache_entry ex_state ''todos'' ''t1'' = Some 1 \<and>
   cache_entry (fst (snd (handleMessage ex_unpack ex_crdt ex_persistence ex_state ex_sync)))
     ''todos'' ''t1'' = Some 103 \<and>
   cache_entry ex_state ''todos'' ''t2'' = None \<and>
   cache_entry (fst (snd (handleMessage ex_unpack ex_crdt ex_persistence ex_state ex_sync)))
     ''todos'' ''t2'' = None"
proof -
  have t1: "''t1'' \<in> node ` set ex_deltas" and t2: "''t2'' \<in> node ` set ex_deltas"
    by (simp_all add: ex_deltas_def)
  have c1: "cache_entry ex_state ''todos'' ''t1'' = Some 1"
    and c2: "cache_entry ex_state ''todos'' ''t2'' = None"
    by (simp_all add: cache_entry_def ex_state_def ex_todos_def)
  from sync_cache_isolation [OF t1, of ex_state "''todos''" ex_unpack ex_crdt ex_persistence
      "Some 9" ex_merged]
    sync_cache_isolation [OF t2, of ex_state "''todos''" ex_unpack ex_crdt ex_persistence
      "Some 9" ex_merged]
    c1 c2 ex_applied t1 t2
  show ?thesis by (simp add: ex_sync_def ex_merged_def)
qed

text \<open>C3, as stated, fails: a sync message with no deltas still calls the
  collection-wide listeners, with an empty list of changes. Here the listener \<open>1\<close> of
  \<^verbatim>\<open>todos\<close> is called.\<close>

theorem empty_sync_notifies_listeners:
  "listeners ex_todos = [1] \<and>
   fst (handleMessage ex_unpack ex_crdt ex_persistence ex_state (Sync ''todos'' (Some 9) [])) =
     [ApplyDeltas ''todos'' [] (Some 9), CallListener 1 []]"
  by (simp add: handleMessage_def deltasWithStamps_def changedIds_def object_keys_def
      ex_persistence_def ex_state_def ex_todos_def)

text \<open>C3, amended. A sync message with no deltas still hands the new server cursor to
  \<^verbatim>\<open>persistence.applyDeltas\<close>. When the collection is tracked and \<^verbatim>\<open>applyDeltas\<close>
  returns, that call is followed by one call of each collection-wide listener, with an
  empty list of changes, and by nothing else: no per-node listener is called, nothing is
  broadcast, the clock receives nothing, and the collection states are unchanged.\<close>

theorem empty_sync_applies_cursor:
  fixes crdt :: "('delta, 'data, 'stamp::linorder, 'value) crdt"
    and p :: "('delta, 'data, 'stamp, 'cursor, 'e) persistence"
    and state :: "col_id \<rightharpoonup> ('data, 'l, 'f) collection_state"
  shows "(\<exists>evs. fst (handleMessage unpack crdt p state (Sync c cur [])) =
            ApplyDeltas c [] cur # evs) \<and>
    (state c = Some cs \<longrightarrow> applyDeltas p c [] cur (deltas_apply crdt) = Inr data \<longrightarrow>
       handleMessage unpack crdt p state (Sync c cur []) =
         (ApplyDeltas c [] cur # map (\<lambda>listener. CallListener listener []) (listeners cs),
          state, Inr ()))"
proof (intro conjI impI)
  show "\<exists>evs. fst (handleMessage unpack crdt p state (Sync c cur [])) = ApplyDeltas c [] cur # evs"
    by (simp add: handleMessage_def deltasWithStamps_def Let_def split: sum.splits option.splits)
next
  assume cs: "state c = Some cs"
    and applied: "applyDeltas p c [] cur (deltas_apply crdt) = Inr data"
  have keys: "changedIds [] = []"
    by (simp add: changedIds_Nil)
  have same: "state(c \<mapsto> cs) = state"
    using cs by (rule map_upd_triv)
  from cs applied show "handleMessage unpack crdt p state (Sync c cur []) =
         (ApplyDeltas c [] cur # map (\<lambda>listener. CallListener listener []) (listeners cs),
          state, Inr ())"
    by (simp add: handleMessage_def deltasWithStamps_def Let_def keys same)
qed

theorem empty_sync_applies_cursor_witness:
  "ex_state ''todos'' = Some ex_todos \<and>
   applyDeltas ex_persistence ''todos'' [] (Some 9) (deltas_apply ex_crdt) = Inr Map.empty \<and>
   handleMessage ex_unpack ex_crdt ex_persistence ex_state (Sync ''todos'' (Some 9) []) =
     ([ApplyDeltas ''todos'' [] (Some 9), CallListener 1 []], ex_state, Inr ())"
proof -
  have applied: "applyDeltas ex_persistence ''todos'' [] (Some 9) (deltas_apply ex_crdt) =
      Inr Map.empty"
    by (simp add: ex_persistence_def)
  from empty_sync_applies_cursor [of ex_unpack ex_crdt ex_persistence ex_state "''todos''"
      "Some 9" ex_todos Map.empty] ex_tracked applied
  show ?thesis by (simp add: ex_todos_def)
qed




text \<open>C5, as stated, fails: the per-node listeners of a changed node are called whether
  or not the node is in the cache. Here \<^verbatim>\<open>t2\<close> has no cache entry and its listener \<open>7\<close>
  is called.\<close>

theorem item_listener_fires_without_cache_entry:
  "cache_entry ex_state ''todos'' ''t2'' = None \<and>
   itemListeners ex_todos ''t2'' = Some [7] \<and>
   ''t2'' \<in> node ` set ex_deltas \<and>
   CallItemListener 7 108
     \<in> set (fst (handleMessage ex_unpack ex_crdt ex_persistence ex_state ex_sync))"
proof -
  have "cache_entry ex_state ''todos'' ''t2'' = None"
    by (simp add: cache_entry_def ex_tracked) (simp add: ex_todos_def)
  moreover have "itemListeners ex_todos ''t2'' = Some [7]"
    by (simp add: ex_todos_def)
  moreover have "''t2'' \<in> node ` set ex_deltas"
    by (simp add: ex_deltas_def)
  moreover have "CallItemListener 7 108
      \<in> set (fst (handleMessage ex_unpack ex_crdt ex_persistence ex_state ex_sync))"
    by (simp add: ex_sync_def ex_changedIds ex_item_calls
        handleMessage_Sync_tracked [where state = ex_state and c = "''todos''",
          OF ex_applied ex_tracked])
  ultimately show ?thesis by simp
qed

text \<open>C5, amended. When a sync message has been handled without failure, the calls of
  per-node listeners are, for each changed node id in turn, one call of each listener
  registered for that id, with the value projected from the merged data, whether or not
  the id is in the cache; the changed ids are the node ids of the deltas, each once.\<close>

theorem item_listeners_fire_for_changed_ids:
  fixes crdt :: "('delta, 'data, 'stamp::linorder, 'value) crdt"
    and p :: "('delta, 'data, 'stamp, 'cursor, 'e) persistence"
    and state :: "col_id \<rightharpoonup> ('data, 'l, 'f) collection_state"
  assumes "snd (snd (handleMessage unpack crdt p state (Sync c cur ds))) = Inr ()"
  shows "\<exists>cs data. state c = Some cs \<and>
     applyDeltas p c (deltasWithStamps crdt ds) cur (deltas_apply crdt) = Inr data \<and>
     filter is_item_listener_call (fst (handleMessage unpack crdt p state (Sync c cur ds))) =
       concat (map (item_calls crdt cs data) (changedIds ds)) \<and>
     distinct (changedIds ds) \<and> set (changedIds ds) = node ` set ds"
proof -
  from assms obtain cs data where cs: "state c = Some cs"
    and applied: "applyDeltas p c (deltasWithStamps crdt ds) cur (deltas_apply crdt) = Inr data"
    unfolding handleMessage_Sync_fulfilled by blast
  have "filter is_item_listener_call (fst (handleMessage unpack crdt p state (Sync c cur ds))) =
       concat (map (item_calls crdt cs data) (changedIds ds))"
    by (simp add: handleMessage_Sync_tracked [where state = state and c = c, OF applied cs]
        filter_other_listener_calls filter_item_calls_concat)
  with cs applied show ?thesis
    by (simp add: distinct_changedIds set_changedIds)
qed

theorem item_listeners_fire_for_changed_ids_witness:
  "snd (snd (handleMessage ex_unpack ex_crdt ex_persistence ex_state ex_sync)) = Inr () \<and>
   cache_entry ex_state ''todos'' ''t2'' = None \<and>
   filter is_item_listener_call
     (fst (handleMessage ex_unpack ex_crdt ex_persistence ex_state ex_sync)) =
     [CallItemListener 7 108]"
proof -
  have uncached: "cache_entry ex_state ''todos'' ''t2'' = None"
    by (simp add: cache_entry_def ex_tracked) (simp add: ex_todos_def)
  from item_listeners_fire_for_changed_ids [where state = ex_state and c = "''todos''"
      and unpack = ex_unpack and crdt = ex_crdt and p = ex_persistence and cur = "Some 9"
      and ds = ex_deltas] ex_fulfilled
  have "filter is_item_listener_call
      (fst (handleMessage ex_unpack ex_crdt ex_persistence ex_state ex_sync)) =
      [CallItemListener 7 108]"
    by (auto simp: ex_sync_def ex_changedIds ex_item_calls ex_tracked ex_applied)
  with ex_fulfilled uncached show ?thesis by simp
qed

text \<open>C6. When a sync message with at least one delta has been handled without
  failure, \<^verbatim>\<open>recvClock\<close> has been called exactly once, with the unpacked greatest stamp
  of the deltas of the message.\<close>

theorem recvClock_once_with_maxStamp:
  fixes crdt :: "('delta, 'data, 'stamp::linorder, 'value) crdt"
    and p :: "('delta, 'data, 'stamp, 'cursor, 'e) persistence"
    and state :: "col_id \<rightharpoonup> ('data, 'l, 'f) collection_state"
  assumes "snd (snd (handleMessage unpack crdt p state (Sync c cur ds))) = Inr ()"
    and "ds \<noteq> []"
  shows "filter is_recv_clock (fst (handleMessage unpack crdt p state (Sync c cur ds))) =
     [RecvClock (unpack (Max ((\<lambda>d. deltas_stamp crdt (delta d)) ` set ds)))]"
proof -
  from assms(1) obtain cs data where cs: "state c = Some cs"
    and applied: "applyDeltas p c (deltasWithStamps crdt ds) cur (deltas_apply crdt) = Inr data"
    unfolding handleMessage_Sync_fulfilled by blast
  from assms(2) show ?thesis
    by (simp add: handleMessage_Sync_tracked [where state = state and c = c, OF applied cs]
        filter_other_listener_calls filter_item_calls_concat)
qed

theorem recvClock_once_with_maxStamp_witness:
  "snd (snd (handleMessage ex_unpack ex_crdt ex_persistence ex_state ex_sync)) = Inr () \<and>
   ex_deltas \<noteq> [] \<and>
   filter is_recv_clock (fst (handleMessage ex_unpack ex_crdt ex_persistence ex_state ex_sync)) =
     [RecvClock (ex_unpack 8)]"
proof -
  have some: "ex_deltas \<noteq> []"
    by (simp add: ex_deltas_def)
  have greatest: "Max ((\<lambda>d. deltas_stamp ex_crdt (delta d)) ` set ex_deltas) = 8"
    by (simp add: ex_deltas_def ex_crdt_def)
  from recvClock_once_with_maxStamp [where state = ex_state and c = "''todos''"
      and unpack = ex_unpack and crdt = ex_crdt and p = ex_persistence and cur = "Some 9"
      and ds = ex_deltas] ex_fulfilled some
  show ?thesis by (simp add: ex_sync_def greatest)
qed

text \<open>C8. When a sync message has been handled without failure, each registered
  collection-wide listener has been called exactly once, all with the same list of
  changes: one pair of id and value for each changed node id, the value projected from
  the merged data that persistence returned, whether or not the id is in the cache.\<close>

theorem listeners_notified_once:
  fixes crdt :: "('delta, 'data, 'stamp::linorder, 'value) crdt"
    and p :: "('delta, 'data, 'stamp, 'cursor, 'e) persistence"
    and state :: "col_id \<rightharpoonup> ('data, 'l, 'f) collection_state"
  assumes "snd (snd (handleMessage unpack crdt p state (Sync c cur ds))) = Inr ()"
  shows "\<exists>cs data. state c = Some cs \<and>
     applyDeltas p c (deltasWithStamps crdt ds) cur (deltas_apply crdt) = Inr data \<and>
     filter is_listener_call (fst (handleMessage unpack crdt p state (Sync c cur ds))) =
       map (\<lambda>listener. CallListener listener
              (map (\<lambda>nid. (nid, crdt_value crdt (data nid))) (changedIds ds)))
         (listeners cs) \<and>
     distinct (changedIds ds) \<and> set (changedIds ds) = node ` set ds"
proof -
  from assms obtain cs data where cs: "state c = Some cs"
    and applied: "applyDeltas p c (deltasWithStamps crdt ds) cur (deltas_apply crdt) = Inr data"
    unfolding handleMessage_Sync_fulfilled by blast
  have "filter is_listener_call (fst (handleMessage unpack crdt p state (Sync c cur ds))) =
       map (\<lambda>listener. CallListener listener
              (map (\<lambda>nid. (nid, crdt_value crdt (data nid))) (changedIds ds)))
         (listeners cs)"
    by (simp add: handleMessage_Sync_tracked [where state = state and c = c, OF applied cs]
        filter_listener_calls filter_item_calls_concat)
  with cs applied show ?thesis
    by (simp add: distinct_changedIds set_changedIds)
qed

theorem listeners_notified_once_witness:
  "snd (snd (handleMessage ex_unpack ex_crdt ex_persistence ex_state ex_sync)) = Inr () \<and>
   cache_entry ex_state ''todos'' ''t2'' = None \<and>
   filter is_listener_call (fst (handleMessage ex_unpack ex_crdt ex_persistence ex_state ex_sync)) =
     [CallListener 1 [(''t1'', 103), (''t2'', 108)]]"
proof -
  have uncached: "cache_entry ex_state ''todos'' ''t2'' = None"
    by (simp add: cache_entry_def ex_tracked) (simp add: ex_todos_def)
  have registered: "listeners ex_todos = [1]"
    by (simp add: ex_todos_def)
  have projected: "crdt_value ex_crdt (ex_merged ''t1'') = 103"
    "crdt_value ex_crdt (ex_merged ''t2'') = 108"
    by (simp_all add: ex_merged_def ex_crdt_def)
  from listeners_notified_once [where state = ex_state and c = "''todos''"
      and unpack = ex_unpack and crdt = ex_crdt and p = ex_persistence and cur = "Some 9"
      and ds = ex_deltas] ex_fulfilled
  have "filter is_listener_call
      (fst (handleMessage ex_unpack ex_crdt ex_persistence ex_state ex_sync)) =
      [CallListener 1 [(''t1'', 103), (''t2'', 108)]]"
    by (auto simp: ex_sync_def ex_changedIds registered projected ex_tracked ex_applied)
  with ex_fulfilled uncached show ?thesis by simp
qed

text \<open>C10. An ack message causes one event, the request to persistence to delete the
  pending deltas of the collection up to the acknowledged stamp: no listener is called,
  nothing is broadcast, the clock receives nothing, and the collection states (caches
  and listeners) are unchanged.\<close>

theorem ack_only_deletes_deltas:
  "fst (handleMessage unpack crdt p state (Ack c deltaStamp)) = [DeleteDeltas c deltaStamp] \<and>
   fst (snd (handleMessage unpack crdt p state (Ack c deltaStamp))) = state"
  by (simp add: handleMessage_Ack)

subsection \<open>The clock\<close>

text \<open>C7. In any sequence of calls of \<^verbatim>\<open>getStamp\<close> and \<^verbatim>\<open>recvClock\<close>, whatever the wall
  times and whether or not the clock store accepts the writes, a stamp that \<^verbatim>\<open>getStamp\<close>
  returns is the packed form of a clock that is strictly greater, in the clock's order,
  than the clock the sequence started from and than the clock of every stamp issued or
  received before it.\<close>

theorem issued_stamps_increase:
  assumes "run_clock persist_set pack calls s = (obs, s')"
    and "obs = before @ Issued c st # after"
  shows "st = pack c \<and> hlc_less (clock s) c \<and> list_all (\<lambda>e. hlc_less (event_clock e) c) before"
proof -
  have "Issued c st \<in> set obs" using assms(2) by simp
  from run_clock_issued_after_start [OF assms(1) this]
  have first: "st = pack c \<and> hlc_less (clock s) c" .
  have "list_all (\<lambda>e. hlc_less (event_clock e) c) before"
    using assms
  proof (induction calls arbitrary: s obs s' before)
    case Nil
    then show ?case by simp
  next
    case (Cons call calls)
    show ?case
    proof (cases call)
      case (CallGetStamp now)
      obtain r s1 where g: "getStamp persist_set pack now s = (r, s1)"
        by (cases "getStamp persist_set pack now s")
      obtain rest s2 where run: "run_clock persist_set pack calls s1 = (rest, s2)"
        by (cases "run_clock persist_set pack calls s1")
      from Cons.prems(1) CallGetStamp g run
      have obs: "obs = (case r of Inl e \<Rightarrow> [] | Inr st \<Rightarrow> [Issued (clock s1) st]) @ rest"
        by simp
      show ?thesis
      proof (cases r)
        case (Inl e)
        with obs Cons.prems(2) have "rest = before @ Issued c st # after" by simp
        from Cons.IH [OF run this] show ?thesis .
      next
        case (Inr st1)
        with obs have obs1: "obs = Issued (clock s1) st1 # rest" by simp
        show ?thesis
        proof (cases before)
          case Nil
          then show ?thesis by simp
        next
          case (Cons e before1)
          with obs1 Cons.prems(2) have e: "e = Issued (clock s1) st1"
            and rest: "rest = before1 @ Issued c st # after" by simp_all
          from rest have "Issued c st \<in> set rest" by simp
          from run_clock_issued_after_start [OF run this] have "hlc_less (clock s1) c" by simp
          with Cons.IH [OF run rest] e Cons show ?thesis by simp
        qed
      qed
    next
      case (CallRecvClock remote now)
      obtain r s1 where g: "recvClock persist_set remote now s = (r, s1)"
        by (cases "recvClock persist_set remote now s")
      obtain rest s2 where run: "run_clock persist_set pack calls s1 = (rest, s2)"
        by (cases "run_clock persist_set pack calls s1")
      from Cons.prems(1) CallRecvClock g run have obs1: "obs = Received remote # rest" by simp
      have past: "hlc_less remote (clock s1)"
        using recvClock_clock [of persist_set remote now s] g by (simp add: hlc_recv_greater_remote)
      show ?thesis
      proof (cases before)
        case Nil
        then show ?thesis by simp
      next
        case (Cons e before1)
        with obs1 Cons.prems(2) have e: "e = Received remote"
          and rest: "rest = before1 @ Issued c st # after" by simp_all
        from rest have "Issued c st \<in> set rest" by simp
        from run_clock_issued_after_start [OF run this] past have "hlc_less remote c"
          by (blast intro: hlc_less_trans)
        with Cons.IH [OF run rest] e Cons show ?thesis by simp
      qed
    qed
  qed
  with first show ?thesis by simp
qed

theorem issued_stamps_increase_witness:
  "fst (run_clock ex_set ex_pack [CallGetStamp 90, CallRecvClock ex_remote 95, CallGetStamp 96]
         ex_clock) =
     [Issued \<lparr>timestamp = 100, counter = 3, hnode = ''a''\<rparr> (100, 3, ''a''),
      Received ex_remote,
      Issued \<lparr>timestamp = 200, counter = 7, hnode = ''a''\<rparr> (200, 7, ''a'')] \<and>
   hlc_less (clock ex_clock) \<lparr>timestamp = 200, counter = 7, hnode = ''a''\<rparr> \<and>
   hlc_less \<lparr>timestamp = 100, counter = 3, hnode = ''a''\<rparr>
     \<lparr>timestamp = 200, counter = 7, hnode = ''a''\<rparr> \<and>
   hlc_less ex_remote \<lparr>timestamp = 200, counter = 7, hnode = ''a''\<rparr>"
proof -
  let ?calls = "[CallGetStamp 90, CallRecvClock ex_remote 95, CallGetStamp 96]"
  let ?c1 = "\<lparr>timestamp = 100, counter = 3, hnode = ''a''\<rparr>"
  let ?c3 = "\<lparr>timestamp = 200, counter = 7, hnode = ''a''\<rparr>"
  have obs: "fst (run_clock ex_set ex_pack ?calls ex_clock) =
      [Issued ?c1 (100, 3, ''a''), Received ex_remote] @ Issued ?c3 (200, 7, ''a'') # []"
    by (simp add: getStamp_def recvClock_def hlc_inc_def hlc_recv_def ex_set_def ex_pack_def
        ex_clock_def ex_remote_def Let_def)
  have run: "run_clock ex_set ex_pack ?calls ex_clock =
      (fst (run_clock ex_set ex_pack ?calls ex_clock), snd (run_clock ex_set ex_pack ?calls ex_clock))"
    by simp
  from issued_stamps_increase [OF run obs] obs show ?thesis by simp
qed

text \<open>C9. When the write to the clock store throws, each of \<^verbatim>\<open>getStamp\<close>, \<^verbatim>\<open>recvClock\<close>
  and \<^verbatim>\<open>setClock\<close> passes the exception on to its caller, and the clock in memory has
  its new value all the same.\<close>

theorem clock_persist_failure:
  "(fst (persist_set (store s) (hlc_inc (clock s) now)) = Some e \<longrightarrow>
      fst (getStamp persist_set pack now s) = Inl e \<and>
      clock (snd (getStamp persist_set pack now s)) = hlc_inc (clock s) now) \<and>
   (fst (persist_set (store s) (hlc_recv (clock s) remote now)) = Some e \<longrightarrow>
      fst (recvClock persist_set remote now s) = Inl e \<and>
      clock (snd (recvClock persist_set remote now s)) = hlc_recv (clock s) remote now) \<and>
   (fst (persist_set (store s) newClock) = Some e \<longrightarrow>
      fst (setClock persist_set newClock s) = Inl e \<and>
      clock (snd (setClock persist_set newClock s)) = newClock)"
  by (simp add: getStamp_def recvClock_def setClock_def Let_def)

theorem clock_persist_failure_witness:
  "fst (ex_failing_set (store ex_clock) (hlc_inc (clock ex_clock) 90)) = Some ''QuotaExceededError'' \<and>
   fst (getStamp ex_failing_set ex_pack 90 ex_clock) = Inl ''QuotaExceededError'' \<and>
   clock (snd (getStamp ex_failing_set ex_pack 90 ex_clock)) =
     \<lparr>timestamp = 100, counter = 3, hnode = ''a''\<rparr> \<and>
   fst (recvClock ex_failing_set ex_remote 90 ex_clock) = Inl ''QuotaExceededError'' \<and>
   clock (snd (recvClock ex_failing_set ex_remote 90 ex_clock)) =
     \<lparr>timestamp = 200, counter = 6, hnode = ''a''\<rparr> \<and>
   fst (setClock ex_failing_set ex_remote ex_clock) = Inl ''QuotaExceededError'' \<and>
   clock (snd (setClock ex_failing_set ex_remote ex_clock)) = ex_remote"
proof -
  have fails: "fst (ex_failing_set written c) = Some ''QuotaExceededError''" for written c
    by (simp add: ex_failing_set_def)
  have inc: "hlc_inc (clock ex_clock) 90 = \<lparr>timestamp = 100, counter = 3, hnode = ''a''\<rparr>"
    and recv: "hlc_recv (clock ex_clock) ex_remote 90 =
      \<lparr>timestamp = 200, counter = 6, hnode = ''a''\<rparr>"
    by (simp_all add: hlc_inc_def hlc_recv_def ex_clock_def ex_remote_def)
  from clock_persist_failure [where persist_set = ex_failing_set and s = ex_clock and now = 90
      and e = "''QuotaExceededError''" and pack = ex_pack and remote = ex_remote
      and newClock = ex_remote] fails inc recv
  show ?thesis by simp
qed

end
